theory Spec2Isabelle
  imports Main "HOL-Library.Word"
begin

section \<open>Data read by the receipts/gas validation stage\<close>

text \<open>
  The stage \<^verbatim>\<open>ValidGasUsedAndReceipts\<close> of
  \<^verbatim>\<open>core/cs-chain/chain-writer/middleware/insert_receipts.go\<close> reads a candidate
  block through the interfaces \<^verbatim>\<open>model.AbstractBlock\<close>,
  \<^verbatim>\<open>model.AbstractHeader\<close> and \<^verbatim>\<open>model.AbstractTransaction\<close>. Each interface
  is a record holding what the methods called by the stage return. Gas counters are
  \<^verbatim>\<open>uint64\<close>, hence 64-bit words. The hash type \<^verbatim>\<open>common.Hash\<close> is a type
  parameter \<open>'h\<close>: the stage only compares two hashes for equality.
\<close>

text \<open>
  Modelled from the spec: the type \<^verbatim>\<open>model2.Receipt\<close> is declared outside the
  files at hand. The spec describes a receipt as the record of one transaction's
  outcome: cumulative gas used up to and including this transaction, emitted logs,
  status. The stage reads the field \<^verbatim>\<open>CumulativeGasUsed\<close> only.
\<close>

record Receipt =
  CumulativeGasUsed :: "64 word"
  Status :: "64 word"
  Logs :: "string list"

text \<open>
  A transaction: its identifier and \<^verbatim>\<open>GetReceipt()\<close>, a pointer that is
  \<^verbatim>\<open>nil\<close> (\<open>None\<close>) when execution attached no receipt.
\<close>

record AbstractTransaction =
  CalTxId :: nat
  GetReceipt :: "Receipt option"

record AbstractHeader =
  GetGasUsed :: "64 word"
  GetGasLimit :: "64 word"

record 'h AbstractBlock =
  IsSpecial :: bool
  Number :: "64 word"
  Header :: AbstractHeader
  GetTransactions :: "AbstractTransaction list"
  GetReceiptHash :: 'h

text \<open>
  The chain reference of the context: the stage calls \<^verbatim>\<open>CurrentBlock().Number()\<close>
  and passes the number to the logger, nothing else. \<^verbatim>\<open>ChainInterface\<close> is declared
  outside the files at hand; the chain is taken to have a current block, and the
  block a header, so that these calls return.
\<close>

record ChainInterface =
  CurrentBlockNumber :: "64 word"

record 'h BlockContext =
  Block :: "'h AbstractBlock"
  Chain :: ChainInterface
  receipts :: "Receipt list"

text \<open>
  The errors of package \<^verbatim>\<open>g_error\<close> that the stage returns; an error of any other
  stage of the chain is \<open>StageError\<close> with its text.
\<close>

datatype g_error =
  ErrEmptyReceipt
  | ReceiptHashError
  | ErrGasUsedIsInvalid
  | ErrTxGasIsOverRanging
  | StageError string

text \<open>
  A middleware is \<^verbatim>\<open>func() error\<close> closed over the shared \<^verbatim>\<open>*BlockContext\<close>:
  it returns \<^verbatim>\<open>nil\<close> or an error and may have updated the context. In the model it
  maps the context to the returned error (\<open>None\<close> for \<^verbatim>\<open>nil\<close>) and the context
  it leaves behind.
\<close>

type_synonym 'h Middleware = "'h BlockContext \<Rightarrow> g_error option \<times> 'h BlockContext"

section \<open>The transaction iterator\<close>

text \<open>
  Modelled from the spec: \<^verbatim>\<open>Block.TxIterator\<close> is defined outside the files at
  hand. By the spec the stage iterates the block's transactions in the order stored in
  the block body, and the first error of the callback aborts the iteration and is
  returned. The callback receives the index and the transaction; the variables it
  captures and assigns are the threaded state \<open>s\<close>.
\<close>

fun TxIterator_from ::
  "nat \<Rightarrow> AbstractTransaction list \<Rightarrow> (nat \<Rightarrow> AbstractTransaction \<Rightarrow> 's \<Rightarrow> g_error + 's)
     \<Rightarrow> 's \<Rightarrow> g_error + 's" where
  "TxIterator_from i [] cb s = Inr s"
| "TxIterator_from i (transaction # rest) cb s =
     (case cb i transaction s of
        Inl err \<Rightarrow> Inl err
      | Inr s' \<Rightarrow> TxIterator_from (Suc i) rest cb s')"

definition TxIterator ::
  "'h AbstractBlock \<Rightarrow> (nat \<Rightarrow> AbstractTransaction \<Rightarrow> 's \<Rightarrow> g_error + 's) \<Rightarrow> 's \<Rightarrow> g_error + 's" where
  "TxIterator b cb s = TxIterator_from 0 (GetTransactions b) cb s"

section \<open>The stage\<close>

text \<open>
  The callback of lines 36 to 44. Its captured variables are the pair
  \<open>(accumulatedGas, receipts)\<close>: a missing receipt returns
  \<^verbatim>\<open>ErrEmptyReceipt\<close>; otherwise \<^verbatim>\<open>accumulatedGas\<close> is overwritten with the
  receipt's cumulative counter and the receipt is appended.
\<close>

definition collectReceipt ::
  "nat \<Rightarrow> AbstractTransaction \<Rightarrow> 64 word \<times> Receipt list \<Rightarrow> g_error + 64 word \<times> Receipt list" where
  "collectReceipt i transaction s =
     (case GetReceipt transaction of
        None \<Rightarrow> Inl ErrEmptyReceipt
      | Some receipt \<Rightarrow> Inr (CumulativeGasUsed receipt, snd s @ [receipt]))"

text \<open>
  \<^verbatim>\<open>ValidGasUsedAndReceipts\<close>, lines 26 to 69. \<^verbatim>\<open>model.DeriveSha\<close> and the
  continuation \<^verbatim>\<open>c.Next()\<close> are defined outside the files at hand and are
  parameters. The logging calls have no effect on the result. An error return leaves
  the context as it was; the success path assigns \<^verbatim>\<open>c.receipts\<close> and returns what
  \<^verbatim>\<open>c.Next()\<close> returns.
\<close>

definition ValidGasUsedAndReceipts ::
  "(Receipt list \<Rightarrow> 'h) \<Rightarrow> 'h Middleware \<Rightarrow> 'h Middleware" where
  "ValidGasUsedAndReceipts DeriveSha Next c =
     (if IsSpecial (Block c) then Next c
      else
        (case TxIterator (Block c) collectReceipt (0, []) of
           Inl err \<Rightarrow> (Some err, c)
         | Inr (accumulatedGas, receipts') \<Rightarrow>
             if DeriveSha receipts' \<noteq> GetReceiptHash (Block c) then (Some ReceiptHashError, c)
             else if accumulatedGas \<noteq> GetGasUsed (Header (Block c)) then (Some ErrGasUsedIsInvalid, c)
             else if accumulatedGas > GetGasLimit (Header (Block c)) then (Some ErrTxGasIsOverRanging, c)
             else Next (c\<lparr>receipts := receipts'\<rparr>)))"

section \<open>What the iteration computes\<close>

text \<open>The receipts attached to a list of transactions, in list order.\<close>

definition receiptsOf :: "AbstractTransaction list \<Rightarrow> Receipt list" where
  "receiptsOf txs = map (\<lambda>t. the (GetReceipt t)) txs"

text \<open>The cumulative counter of the last receipt of a sequence, \<open>0\<close> for none.\<close>

definition lastCumulative :: "Receipt list \<Rightarrow> 64 word" where
  "lastCumulative rs = (if rs = [] then 0 else CumulativeGasUsed (last rs))"

definition allHaveReceipts :: "AbstractTransaction list \<Rightarrow> bool" where
  "allHaveReceipts txs = list_all (\<lambda>t. GetReceipt t \<noteq> None) txs"

text \<open>
  Every check of the stage passes, in the words of the spec: each transaction has a
  receipt, the derived root of the receipt sequence is the declared one, the last
  cumulative counter is the declared gas used and does not exceed the gas limit.
\<close>

definition checksPass :: "(Receipt list \<Rightarrow> 'h) \<Rightarrow> 'h BlockContext \<Rightarrow> bool" where
  "checksPass DeriveSha c =
     (allHaveReceipts (GetTransactions (Block c))
      \<and> DeriveSha (receiptsOf (GetTransactions (Block c))) = GetReceiptHash (Block c)
      \<and> lastCumulative (receiptsOf (GetTransactions (Block c))) = GetGasUsed (Header (Block c))
      \<and> lastCumulative (receiptsOf (GetTransactions (Block c))) \<le> GetGasLimit (Header (Block c)))"

text \<open>
  The gas that the receipts record for each transaction on its own: the difference
  between its cumulative counter and the counter of the receipt before it (\<open>prev\<close>,
  \<open>0\<close> before the first transaction), in \<^verbatim>\<open>uint64\<close> arithmetic.
\<close>

fun gasDeltas :: "64 word \<Rightarrow> Receipt list \<Rightarrow> 64 word list" where
  "gasDeltas prev [] = []"
| "gasDeltas prev (r # rs) = (CumulativeGasUsed r - prev) # gasDeltas (CumulativeGasUsed r) rs"

section \<open>Sample inputs\<close>

definition sampleReceipt :: "64 word \<Rightarrow> Receipt" where
  "sampleReceipt g = \<lparr>CumulativeGasUsed = g, Status = 1, Logs = []\<rparr>"

definition sampleTx :: "nat \<Rightarrow> 64 word \<Rightarrow> AbstractTransaction" where
  "sampleTx n g = \<lparr>CalTxId = n, GetReceipt = Some (sampleReceipt g)\<rparr>"

definition unexecutedTx :: "nat \<Rightarrow> AbstractTransaction" where
  "unexecutedTx n = \<lparr>CalTxId = n, GetReceipt = None\<rparr>"

definition sampleContext ::
  "bool \<Rightarrow> AbstractTransaction list \<Rightarrow> 'h \<Rightarrow> 64 word \<Rightarrow> 64 word \<Rightarrow> 'h BlockContext" where
  "sampleContext special txs h used limit =
     \<lparr>Block = \<lparr>IsSpecial = special, Number = 1,
               Header = \<lparr>GetGasUsed = used, GetGasLimit = limit\<rparr>,
               GetTransactions = txs, GetReceiptHash = h\<rparr>,
      Chain = \<lparr>CurrentBlockNumber = 0\<rparr>,
      receipts = []\<rparr>"

text \<open>The continuation of the last stage of a chain: nothing left to run.\<close>

definition endOfChain :: "'h Middleware" where
  "endOfChain c = (None, c)"

text \<open>An injective stand-in for \<^verbatim>\<open>DeriveSha\<close>: the receipt sequence itself.\<close>

definition listRoot :: "Receipt list \<Rightarrow> Receipt list" where
  "listRoot rs = rs"

section \<open>The account state database\<close>














section \<open>The callers of the account reads\<close>



















section \<open>Lemmas on the iteration\<close>

lemmas sample_defs = sampleContext_def sampleTx_def sampleReceipt_def unexecutedTx_def
  listRoot_def endOfChain_def receiptsOf_def lastCumulative_def allHaveReceipts_def


lemma collectReceipt_None:
  "GetReceipt t = None \<Longrightarrow> collectReceipt i t s = Inl ErrEmptyReceipt"
  by (simp add: collectReceipt_def)

lemma collectReceipt_Some:
  "GetReceipt t = Some r \<Longrightarrow> collectReceipt i t s = Inr (CumulativeGasUsed r, snd s @ [r])"
  by (simp add: collectReceipt_def)

lemma TxIterator_from_collect_ok:
  "allHaveReceipts txs \<Longrightarrow>
   TxIterator_from i txs collectReceipt (g, rs) =
     Inr (if txs = [] then g else lastCumulative (receiptsOf txs), rs @ receiptsOf txs)"
proof (induction txs arbitrary: i g rs)
  case Nil
  then show ?case by (simp add: receiptsOf_def)
next
  case (Cons t ts)
  from Cons.prems obtain r where r: "GetReceipt t = Some r" and ts: "allHaveReceipts ts"
    by (auto simp: allHaveReceipts_def)
  have "TxIterator_from i (t # ts) collectReceipt (g, rs) =
        TxIterator_from (Suc i) ts collectReceipt (CumulativeGasUsed r, rs @ [r])"
    by (simp add: collectReceipt_Some [OF r])
  also have "\<dots> = Inr (if ts = [] then CumulativeGasUsed r else lastCumulative (receiptsOf ts),
                       (rs @ [r]) @ receiptsOf ts)"
    by (rule Cons.IH [OF ts])
  finally show ?case
    by (simp add: receiptsOf_def lastCumulative_def r)
qed

lemma TxIterator_from_collect_empty:
  "\<not> allHaveReceipts txs \<Longrightarrow> TxIterator_from i txs collectReceipt s = Inl ErrEmptyReceipt"
proof (induction txs arbitrary: i s)
  case Nil
  then show ?case by (simp add: allHaveReceipts_def)
next
  case (Cons t ts)
  show ?case
  proof (cases "GetReceipt t")
    case None
    then show ?thesis by (simp add: collectReceipt_None)
  next
    case (Some r)
    with Cons.prems have "\<not> allHaveReceipts ts" by (simp add: allHaveReceipts_def)
    then show ?thesis by (simp add: collectReceipt_Some [OF Some] Cons.IH)
  qed
qed

lemma TxIterator_collect_ok:
  "allHaveReceipts (GetTransactions b) \<Longrightarrow>
   TxIterator b collectReceipt (0, []) =
     Inr (lastCumulative (receiptsOf (GetTransactions b)), receiptsOf (GetTransactions b))"
  by (simp add: TxIterator_def TxIterator_from_collect_ok lastCumulative_def receiptsOf_def)

lemma TxIterator_collect_empty:
  "\<not> allHaveReceipts (GetTransactions b) \<Longrightarrow>
   TxIterator b collectReceipt (0, []) = Inl ErrEmptyReceipt"
  by (simp add: TxIterator_def TxIterator_from_collect_empty)

lemma stage_missing_receipt:
  "\<not> IsSpecial (Block c) \<Longrightarrow> \<not> allHaveReceipts (GetTransactions (Block c)) \<Longrightarrow>
   ValidGasUsedAndReceipts DeriveSha Next c = (Some ErrEmptyReceipt, c)"
  by (simp add: ValidGasUsedAndReceipts_def TxIterator_collect_empty)

lemma stage_all_receipts:
  "\<not> IsSpecial (Block c) \<Longrightarrow> allHaveReceipts (GetTransactions (Block c)) \<Longrightarrow>
   ValidGasUsedAndReceipts DeriveSha Next c =
     (if DeriveSha (receiptsOf (GetTransactions (Block c))) \<noteq> GetReceiptHash (Block c)
      then (Some ReceiptHashError, c)
      else if lastCumulative (receiptsOf (GetTransactions (Block c))) \<noteq> GetGasUsed (Header (Block c))
      then (Some ErrGasUsedIsInvalid, c)
      else if lastCumulative (receiptsOf (GetTransactions (Block c))) > GetGasLimit (Header (Block c))
      then (Some ErrTxGasIsOverRanging, c)
      else Next (c\<lparr>receipts := receiptsOf (GetTransactions (Block c))\<rparr>))"
  by (simp add: ValidGasUsedAndReceipts_def TxIterator_collect_ok)

lemma allHaveReceipts_iff:
  "allHaveReceipts txs \<longleftrightarrow> (\<forall>t \<in> set txs. GetReceipt t \<noteq> None)"
  by (simp add: allHaveReceipts_def list_all_iff)

section \<open>Special blocks\<close>

text \<open>
  Claim C8. For a special block the stage returns exactly what the next stage returns
  on the untouched context: no receipt is collected, no receipts root and no gas value
  is compared, whatever the transactions, the header and \<^verbatim>\<open>DeriveSha\<close> are.
\<close>

theorem special_block_passes_through:
  "IsSpecial (Block c) \<Longrightarrow> ValidGasUsedAndReceipts DeriveSha Next c = Next c"
  by (simp add: ValidGasUsedAndReceipts_def)

theorem special_block_passes_through_witness:
  "IsSpecial (Block (sampleContext True [unexecutedTx 1] [] 500 100 :: Receipt list BlockContext))
   \<and> ValidGasUsedAndReceipts listRoot endOfChain (sampleContext True [unexecutedTx 1] [] 500 100)
       = (None, sampleContext True [unexecutedTx 1] [] 500 100)"
  using special_block_passes_through
    [of "sampleContext True [unexecutedTx 1] [] 500 100" listRoot endOfChain]
  by (simp add: sampleContext_def endOfChain_def)

section \<open>Missing receipts\<close>

text \<open>
  Claim C3. For a block that is not special, when some transaction of the block has no
  receipt (\<^verbatim>\<open>GetReceipt\<close> is \<^verbatim>\<open>nil\<close>), the stage returns
  \<^verbatim>\<open>ErrEmptyReceipt\<close> and leaves the context as it was. The result is the same
  for every \<^verbatim>\<open>DeriveSha\<close>, declared receipt hash, gas used, gas limit and
  continuation: the abort precedes the comparison of the receipts root and of the gas.
\<close>

theorem missing_receipt_aborts:
  assumes "\<not> IsSpecial (Block c)"
    and "\<exists>t \<in> set (GetTransactions (Block c)). GetReceipt t = None"
  shows "ValidGasUsedAndReceipts DeriveSha Next c = (Some ErrEmptyReceipt, c)"
proof -
  from assms(2) have "\<not> allHaveReceipts (GetTransactions (Block c))"
    by (auto simp: allHaveReceipts_iff)
  with assms(1) show ?thesis by (rule stage_missing_receipt)
qed

theorem missing_receipt_aborts_witness:
  "\<not> IsSpecial (Block (sampleContext False [sampleTx 1 21000, unexecutedTx 2] [] 21000 100000 :: Receipt list BlockContext))
   \<and> (\<exists>t \<in> set (GetTransactions (Block (sampleContext False [sampleTx 1 21000, unexecutedTx 2] [] 21000 100000 :: Receipt list BlockContext))).
         GetReceipt t = None)
   \<and> ValidGasUsedAndReceipts listRoot endOfChain (sampleContext False [sampleTx 1 21000, unexecutedTx 2] [] 21000 100000)
       = (Some ErrEmptyReceipt, sampleContext False [sampleTx 1 21000, unexecutedTx 2] [] 21000 100000)"
proof -
  let ?c = "sampleContext False [sampleTx 1 21000, unexecutedTx 2] [] 21000 100000 :: Receipt list BlockContext"
  have a: "\<not> IsSpecial (Block ?c)" by (simp add: sampleContext_def)
  have b: "\<exists>t \<in> set (GetTransactions (Block ?c)). GetReceipt t = None"
    by (simp add: sampleContext_def unexecutedTx_def)
  from a b missing_receipt_aborts [OF a b, of listRoot endOfChain] show ?thesis by simp
qed

section \<open>The receipts root\<close>

text \<open>
  Claim C4. For a block that is not special and whose transactions all have receipts,
  the stage applies \<^verbatim>\<open>DeriveSha\<close> to the receipts collected in body order and
  compares the result with the declared receipt hash of the block; when they differ it
  returns \<^verbatim>\<open>ReceiptHashError\<close>, whatever the gas used and the gas limit of the
  header are: the comparison of the root precedes both gas comparisons.
\<close>

theorem receipt_hash_mismatch_aborts:
  assumes "\<not> IsSpecial (Block c)"
    and "allHaveReceipts (GetTransactions (Block c))"
    and "DeriveSha (receiptsOf (GetTransactions (Block c))) \<noteq> GetReceiptHash (Block c)"
  shows "ValidGasUsedAndReceipts DeriveSha Next c = (Some ReceiptHashError, c)"
  using assms by (simp add: stage_all_receipts)

theorem receipt_hash_mismatch_aborts_witness:
  "\<not> IsSpecial (Block (sampleContext False [sampleTx 1 21000] [] 5 1 :: Receipt list BlockContext))
   \<and> allHaveReceipts (GetTransactions (Block (sampleContext False [sampleTx 1 21000] [] 5 1 :: Receipt list BlockContext)))
   \<and> listRoot (receiptsOf (GetTransactions (Block (sampleContext False [sampleTx 1 21000] [] 5 1 :: Receipt list BlockContext)))) \<noteq> []
   \<and> ValidGasUsedAndReceipts listRoot endOfChain (sampleContext False [sampleTx 1 21000] [] 5 1)
       = (Some ReceiptHashError, sampleContext False [sampleTx 1 21000] [] 5 1)"
proof -
  let ?c = "sampleContext False [sampleTx 1 21000] [] 5 1 :: Receipt list BlockContext"
  have a: "\<not> IsSpecial (Block ?c)" by (simp add: sampleContext_def)
  have b: "allHaveReceipts (GetTransactions (Block ?c))" by (simp add: sample_defs)
  have d: "listRoot (receiptsOf (GetTransactions (Block ?c))) \<noteq> GetReceiptHash (Block ?c)"
    by (simp add: sample_defs)
  from a b d receipt_hash_mismatch_aborts [where DeriveSha = listRoot and Next = endOfChain, OF a b d] show ?thesis
    by (simp add: sampleContext_def)
qed

section \<open>The gas comparisons\<close>

text \<open>
  Claim C5. For a block that is not special and passes the receipts-root check, when
  the accumulated gas (the cumulative counter of the last receipt, \<open>0\<close> without
  transactions) differs from the gas used declared by the header, the stage returns
  \<^verbatim>\<open>ErrGasUsedIsInvalid\<close>, whatever the gas limit is.
\<close>

theorem gas_used_mismatch_aborts:
  assumes "\<not> IsSpecial (Block c)"
    and "allHaveReceipts (GetTransactions (Block c))"
    and "DeriveSha (receiptsOf (GetTransactions (Block c))) = GetReceiptHash (Block c)"
    and "lastCumulative (receiptsOf (GetTransactions (Block c))) \<noteq> GetGasUsed (Header (Block c))"
  shows "ValidGasUsedAndReceipts DeriveSha Next c = (Some ErrGasUsedIsInvalid, c)"
  using assms by (simp add: stage_all_receipts)

theorem gas_used_mismatch_aborts_witness:
  "\<not> IsSpecial (Block (sampleContext False [sampleTx 1 300, sampleTx 2 600]
                          [sampleReceipt 300, sampleReceipt 600] 500 100))
   \<and> allHaveReceipts [sampleTx 1 300, sampleTx 2 600]
   \<and> lastCumulative (receiptsOf [sampleTx 1 300, sampleTx 2 600]) = 600
   \<and> ValidGasUsedAndReceipts listRoot endOfChain
        (sampleContext False [sampleTx 1 300, sampleTx 2 600] [sampleReceipt 300, sampleReceipt 600] 500 100)
       = (Some ErrGasUsedIsInvalid,
          sampleContext False [sampleTx 1 300, sampleTx 2 600] [sampleReceipt 300, sampleReceipt 600] 500 100)"
proof -
  let ?c = "sampleContext False [sampleTx 1 300, sampleTx 2 600] [sampleReceipt 300, sampleReceipt 600] 500 100"
  have a: "\<not> IsSpecial (Block ?c)" by (simp add: sampleContext_def)
  have b: "allHaveReceipts (GetTransactions (Block ?c))" by (simp add: sample_defs)
  have d: "listRoot (receiptsOf (GetTransactions (Block ?c))) = GetReceiptHash (Block ?c)"
    by (simp add: sample_defs)
  have e: "lastCumulative (receiptsOf (GetTransactions (Block ?c))) \<noteq> GetGasUsed (Header (Block ?c))"
    by (simp add: sample_defs)
  have f: "lastCumulative (receiptsOf [sampleTx 1 300, sampleTx 2 600]) = 600"
    by (simp add: sample_defs)
  from a b f gas_used_mismatch_aborts [where DeriveSha = listRoot and Next = endOfChain, OF a b d e] show ?thesis
    by (simp add: sampleContext_def)
qed

text \<open>
  Claim C6. For a block that is not special and passes the receipts-root check and the
  gas-used check, the stage returns \<^verbatim>\<open>ErrTxGasIsOverRanging\<close> when the
  accumulated gas exceeds the gas limit of the header (unsigned comparison); otherwise
  the gas checks succeed: the receipts are stored and the next stage runs.
\<close>

theorem gas_limit_check:
  assumes "\<not> IsSpecial (Block c)"
    and "allHaveReceipts (GetTransactions (Block c))"
    and "DeriveSha (receiptsOf (GetTransactions (Block c))) = GetReceiptHash (Block c)"
    and "lastCumulative (receiptsOf (GetTransactions (Block c))) = GetGasUsed (Header (Block c))"
  shows "ValidGasUsedAndReceipts DeriveSha Next c =
           (if lastCumulative (receiptsOf (GetTransactions (Block c))) > GetGasLimit (Header (Block c))
            then (Some ErrTxGasIsOverRanging, c)
            else Next (c\<lparr>receipts := receiptsOf (GetTransactions (Block c))\<rparr>))"
  using assms by (simp add: stage_all_receipts)

theorem gas_limit_check_witness:
  "ValidGasUsedAndReceipts listRoot endOfChain
        (sampleContext False [sampleTx 1 300, sampleTx 2 600] [sampleReceipt 300, sampleReceipt 600] 600 500)
       = (Some ErrTxGasIsOverRanging,
          sampleContext False [sampleTx 1 300, sampleTx 2 600] [sampleReceipt 300, sampleReceipt 600] 600 500)
   \<and> ValidGasUsedAndReceipts listRoot endOfChain
        (sampleContext False [sampleTx 1 300, sampleTx 2 600] [sampleReceipt 300, sampleReceipt 600] 600 600)
       = (None,
          (sampleContext False [sampleTx 1 300, sampleTx 2 600] [sampleReceipt 300, sampleReceipt 600] 600 600)
            \<lparr>receipts := [sampleReceipt 300, sampleReceipt 600]\<rparr>)"
proof -
  let ?over = "sampleContext False [sampleTx 1 300, sampleTx 2 600] [sampleReceipt 300, sampleReceipt 600] 600 500"
  let ?ok = "sampleContext False [sampleTx 1 300, sampleTx 2 600] [sampleReceipt 300, sampleReceipt 600] 600 600"
  have a: "\<not> IsSpecial (Block ?over)" "\<not> IsSpecial (Block ?ok)" by (simp_all add: sampleContext_def)
  have b: "allHaveReceipts (GetTransactions (Block ?over))" "allHaveReceipts (GetTransactions (Block ?ok))"
    by (simp_all add: sample_defs)
  have d: "listRoot (receiptsOf (GetTransactions (Block ?over))) = GetReceiptHash (Block ?over)"
    "listRoot (receiptsOf (GetTransactions (Block ?ok))) = GetReceiptHash (Block ?ok)"
    by (simp_all add: sample_defs)
  have e: "lastCumulative (receiptsOf (GetTransactions (Block ?over))) = GetGasUsed (Header (Block ?over))"
    "lastCumulative (receiptsOf (GetTransactions (Block ?ok))) = GetGasUsed (Header (Block ?ok))"
    by (simp_all add: sample_defs)
  from gas_limit_check [where DeriveSha = listRoot and Next = endOfChain, OF a(1) b(1) d(1) e(1)]
       gas_limit_check [where DeriveSha = listRoot and Next = endOfChain, OF a(2) b(2) d(2) e(2)]
  show ?thesis by (simp add: sample_defs)
qed

section \<open>Blocks without transactions\<close>

text \<open>
  Claim C10. For a block that is not special and has no transaction, the iteration
  ends with accumulated gas \<open>0\<close> and the empty receipt list. The stage succeeds
  (stores the empty list and runs the next stage) exactly when the declared receipt
  hash is the derived root of the empty sequence and the declared gas used is \<open>0\<close>;
  the gas-limit check cannot fail then. Otherwise it returns
  \<^verbatim>\<open>ReceiptHashError\<close> or \<^verbatim>\<open>ErrGasUsedIsInvalid\<close>.
\<close>

theorem empty_block_outcome:
  assumes "\<not> IsSpecial (Block c)"
    and "GetTransactions (Block c) = []"
  shows "TxIterator (Block c) collectReceipt (0, []) = Inr (0, [])
    \<and> ValidGasUsedAndReceipts DeriveSha Next c =
        (if DeriveSha [] = GetReceiptHash (Block c) \<and> GetGasUsed (Header (Block c)) = 0
         then Next (c\<lparr>receipts := []\<rparr>)
         else if DeriveSha [] \<noteq> GetReceiptHash (Block c) then (Some ReceiptHashError, c)
         else (Some ErrGasUsedIsInvalid, c))"
  using assms by (auto simp: ValidGasUsedAndReceipts_def TxIterator_def)

theorem empty_block_outcome_witness:
  "TxIterator (Block (sampleContext False [] [] 0 0 :: Receipt list BlockContext)) collectReceipt (0, [])
     = Inr (0, [])
   \<and> ValidGasUsedAndReceipts listRoot endOfChain (sampleContext False [] [] 0 0)
       = (None, sampleContext False [] [] 0 0)
   \<and> ValidGasUsedAndReceipts listRoot endOfChain (sampleContext False [] [] 21000 100000)
       = (Some ErrGasUsedIsInvalid, sampleContext False [] [] 21000 100000)"
proof -
  let ?ok = "sampleContext False [] [] 0 0 :: Receipt list BlockContext"
  let ?bad = "sampleContext False [] [] 21000 100000 :: Receipt list BlockContext"
  have a: "\<not> IsSpecial (Block ?ok)" "\<not> IsSpecial (Block ?bad)" by (simp_all add: sampleContext_def)
  have b: "GetTransactions (Block ?ok) = []" "GetTransactions (Block ?bad) = []"
    by (simp_all add: sampleContext_def)
  from empty_block_outcome [OF a(1) b(1), of listRoot endOfChain]
       empty_block_outcome [OF a(2) b(2), of listRoot endOfChain]
  show ?thesis by (simp add: sample_defs)
qed

section \<open>Aborting leaves the context alone\<close>

text \<open>
  Claim C2. For a block that is not special: when every check passes, the stage
  returns what the next stage returns on the context with the recomputed receipt list
  stored in \<^verbatim>\<open>receipts\<close>; when some check fails, the stage returns one of its
  four errors together with the unchanged context, and this result is the same for
  every continuation: no later stage has run and nothing was stored.
  (Special blocks never abort in the stage and never store receipts: claim C8.)
\<close>

theorem stage_commits_only_on_success:
  assumes "\<not> IsSpecial (Block c)"
  shows "if checksPass DeriveSha c
         then ValidGasUsedAndReceipts DeriveSha Next c
                = Next (c\<lparr>receipts := receiptsOf (GetTransactions (Block c))\<rparr>)
         else \<exists>e \<in> {ErrEmptyReceipt, ReceiptHashError, ErrGasUsedIsInvalid, ErrTxGasIsOverRanging}.
                \<forall>Next'. ValidGasUsedAndReceipts DeriveSha Next' c = (Some e, c)"
proof (cases "allHaveReceipts (GetTransactions (Block c))")
  case False
  then have "\<forall>Next'. ValidGasUsedAndReceipts DeriveSha Next' c = (Some ErrEmptyReceipt, c)"
    using assms by (simp add: stage_missing_receipt)
  moreover from False have "\<not> checksPass DeriveSha c" by (simp add: checksPass_def)
  ultimately show ?thesis by auto
next
  case True
  note st = stage_all_receipts [OF assms True]
  show ?thesis
  proof (cases "checksPass DeriveSha c")
    case pass: True
    then have "\<not> lastCumulative (receiptsOf (GetTransactions (Block c))) > GetGasLimit (Header (Block c))"
      by (auto simp: checksPass_def not_less)
    moreover from pass have "DeriveSha (receiptsOf (GetTransactions (Block c))) = GetReceiptHash (Block c)"
      and "lastCumulative (receiptsOf (GetTransactions (Block c))) = GetGasUsed (Header (Block c))"
      by (simp_all add: checksPass_def)
    ultimately have "ValidGasUsedAndReceipts DeriveSha Next c
                = Next (c\<lparr>receipts := receiptsOf (GetTransactions (Block c))\<rparr>)"
      by (simp add: st)
    with pass show ?thesis by simp
  next
    case fail: False
    let ?rs = "receiptsOf (GetTransactions (Block c))"
    consider (hash) "DeriveSha ?rs \<noteq> GetReceiptHash (Block c)"
      | (used) "DeriveSha ?rs = GetReceiptHash (Block c)"
               "lastCumulative ?rs \<noteq> GetGasUsed (Header (Block c))"
      | (limit) "DeriveSha ?rs = GetReceiptHash (Block c)"
                "lastCumulative ?rs = GetGasUsed (Header (Block c))"
                "lastCumulative ?rs > GetGasLimit (Header (Block c))"
      using fail True by (auto simp: checksPass_def not_le)
    then have "\<exists>e \<in> {ErrEmptyReceipt, ReceiptHashError, ErrGasUsedIsInvalid, ErrTxGasIsOverRanging}.
                \<forall>Next'. ValidGasUsedAndReceipts DeriveSha Next' c = (Some e, c)"
    proof cases
      case hash
      then have "\<forall>Next'. ValidGasUsedAndReceipts DeriveSha Next' c = (Some ReceiptHashError, c)"
        by (simp add: st)
      then show ?thesis by blast
    next
      case used
      then have "\<forall>Next'. ValidGasUsedAndReceipts DeriveSha Next' c = (Some ErrGasUsedIsInvalid, c)"
        by (simp add: st)
      then show ?thesis by blast
    next
      case limit
      then have "\<forall>Next'. ValidGasUsedAndReceipts DeriveSha Next' c = (Some ErrTxGasIsOverRanging, c)"
        by (simp add: st)
      then show ?thesis by blast
    qed
    with fail show ?thesis by simp
  qed
qed

theorem stage_commits_only_on_success_witness:
  "\<not> checksPass listRoot
        (sampleContext False [sampleTx 1 300, sampleTx 2 600] [sampleReceipt 300, sampleReceipt 600] 500 1000)
   \<and> (\<exists>e. \<forall>Next'. ValidGasUsedAndReceipts listRoot Next'
        (sampleContext False [sampleTx 1 300, sampleTx 2 600] [sampleReceipt 300, sampleReceipt 600] 500 1000)
       = (Some e,
          sampleContext False [sampleTx 1 300, sampleTx 2 600] [sampleReceipt 300, sampleReceipt 600] 500 1000))
   \<and> checksPass listRoot
        (sampleContext False [sampleTx 1 300, sampleTx 2 600] [sampleReceipt 300, sampleReceipt 600] 600 1000)
   \<and> ValidGasUsedAndReceipts listRoot endOfChain
        (sampleContext False [sampleTx 1 300, sampleTx 2 600] [sampleReceipt 300, sampleReceipt 600] 600 1000)
       = (None,
          (sampleContext False [sampleTx 1 300, sampleTx 2 600] [sampleReceipt 300, sampleReceipt 600] 600 1000)
            \<lparr>receipts := [sampleReceipt 300, sampleReceipt 600]\<rparr>)"
proof -
  let ?bad = "sampleContext False [sampleTx 1 300, sampleTx 2 600] [sampleReceipt 300, sampleReceipt 600] 500 1000"
  let ?ok = "sampleContext False [sampleTx 1 300, sampleTx 2 600] [sampleReceipt 300, sampleReceipt 600] 600 1000"
  have a: "\<not> IsSpecial (Block ?bad)" "\<not> IsSpecial (Block ?ok)" by (simp_all add: sampleContext_def)
  have b: "\<not> checksPass listRoot ?bad" by (simp add: checksPass_def sample_defs)
  have d: "checksPass listRoot ?ok" by (simp add: checksPass_def sample_defs)
  from stage_commits_only_on_success [OF a(1), of listRoot] b
  have "\<exists>e. \<forall>Next'. ValidGasUsedAndReceipts listRoot Next' ?bad = (Some e, ?bad)"
    by auto
  moreover from stage_commits_only_on_success [OF a(2), of listRoot endOfChain] d
  have "ValidGasUsedAndReceipts listRoot endOfChain ?ok
          = (None, ?ok\<lparr>receipts := [sampleReceipt 300, sampleReceipt 600]\<rparr>)"
    by (simp add: sample_defs)
  ultimately show ?thesis using b d by blast
qed

section \<open>Accumulated gas\<close>

lemma gasDeltas_sum:
  "(if rs = [] then prev else CumulativeGasUsed (last rs)) = prev + sum_list (gasDeltas prev rs)"
proof (induction rs arbitrary: prev)
  case Nil
  show ?case by simp
next
  case (Cons r rs)
  from Cons.IH [of "CumulativeGasUsed r"] show ?case by (cases "rs = []") simp_all
qed

lemma gasDeltas_sum_unat:
  "sorted (prev # map CumulativeGasUsed rs) \<Longrightarrow>
   unat (if rs = [] then prev else CumulativeGasUsed (last rs))
     = unat prev + sum_list (map unat (gasDeltas prev rs))"
proof (induction rs arbitrary: prev)
  case Nil
  show ?case by simp
next
  case (Cons r rs)
  from Cons.prems have le: "prev \<le> CumulativeGasUsed r"
    and rest: "sorted (CumulativeGasUsed r # map CumulativeGasUsed rs)"
    by simp_all
  from le have sub: "unat (CumulativeGasUsed r - prev) = unat (CumulativeGasUsed r) - unat prev"
    by (rule unat_sub)
  from le have "unat prev \<le> unat (CumulativeGasUsed r)" by (simp add: word_le_nat_alt)
  with Cons.IH [OF rest] sub show ?case by (cases "rs = []") simp_all
qed

text \<open>
  Claim C1. When every transaction of the block has a receipt, so that the iteration
  runs to its end, it ends with the receipts in body order and with
  \<^verbatim>\<open>accumulatedGas\<close> equal to the cumulative counter of the receipt of the last
  transaction (\<open>0\<close> for a block without transactions): the callback overwrites
  \<^verbatim>\<open>accumulatedGas\<close> with each receipt's counter. This value is the sum of the gas
  that the receipts record for each transaction on its own, in \<^verbatim>\<open>uint64\<close>
  arithmetic; when the counters do not decrease along the body, so that no difference
  wraps around, also as a sum of natural numbers.
\<close>

theorem accumulated_gas_is_last_cumulative:
  assumes "allHaveReceipts (GetTransactions b)"
  shows "TxIterator b collectReceipt (0, [])
           = Inr (lastCumulative (receiptsOf (GetTransactions b)), receiptsOf (GetTransactions b))
    \<and> lastCumulative (receiptsOf (GetTransactions b))
        = sum_list (gasDeltas 0 (receiptsOf (GetTransactions b)))
    \<and> lastCumulative (receiptsOf (GetTransactions b))
        = (if GetTransactions b = [] then 0
           else CumulativeGasUsed (the (GetReceipt (last (GetTransactions b)))))
    \<and> (sorted (map CumulativeGasUsed (receiptsOf (GetTransactions b))) \<longrightarrow>
         unat (lastCumulative (receiptsOf (GetTransactions b)))
           = sum_list (map unat (gasDeltas 0 (receiptsOf (GetTransactions b)))))"
proof -
  let ?rs = "receiptsOf (GetTransactions b)"
  have "lastCumulative ?rs = sum_list (gasDeltas 0 ?rs)"
    using gasDeltas_sum [of ?rs 0] by (simp add: lastCumulative_def)
  moreover have "lastCumulative ?rs
        = (if GetTransactions b = [] then 0
           else CumulativeGasUsed (the (GetReceipt (last (GetTransactions b)))))"
    by (simp add: lastCumulative_def receiptsOf_def last_map)
  moreover have "unat (lastCumulative ?rs) = sum_list (map unat (gasDeltas 0 ?rs))"
    if "sorted (map CumulativeGasUsed ?rs)"
    using gasDeltas_sum_unat [of 0 ?rs] that by (simp add: lastCumulative_def)
  ultimately show ?thesis using assms by (simp add: TxIterator_collect_ok)
qed

theorem accumulated_gas_is_last_cumulative_witness:
  "TxIterator (Block (sampleContext False [sampleTx 1 300, sampleTx 2 500, sampleTx 3 900] (0::nat) 900 1000))
       collectReceipt (0, [])
     = Inr (900, [sampleReceipt 300, sampleReceipt 500, sampleReceipt 900])
   \<and> gasDeltas 0 [sampleReceipt 300, sampleReceipt 500, sampleReceipt 900] = [300, 200, 400]
   \<and> sum_list [300, 200, 400] = (900 :: 64 word)
   \<and> sorted (map CumulativeGasUsed [sampleReceipt 300, sampleReceipt 500, sampleReceipt 900])
   \<and> sum_list (map unat [300, 200, 400 :: 64 word]) = 900"
proof -
  let ?b = "Block (sampleContext False [sampleTx 1 300, sampleTx 2 500, sampleTx 3 900] (0::nat) 900 1000)"
  have a: "allHaveReceipts (GetTransactions ?b)" by (simp add: sample_defs)
  have d: "gasDeltas 0 [sampleReceipt 300, sampleReceipt 500, sampleReceipt 900] = [300, 200, 400]"
    by (simp add: sample_defs)
  have e: "sorted (map CumulativeGasUsed [sampleReceipt 300, sampleReceipt 500, sampleReceipt 900])"
    by (simp add: sample_defs)
  from accumulated_gas_is_last_cumulative [OF a] d e show ?thesis
    by (simp add: sample_defs)
qed

section \<open>Transaction order\<close>


section \<open>Reading an account that was never created\<close>






end
